theory Spec2Isabelle
  imports Complex_Main "HOL-Library.Sublist"
begin

section \<open>Python values\<close>

text \<open>
  A Python \<open>str\<close> is a sequence of Unicode code points, so a string is a list of
  natural numbers; \<open>s2p\<close> turns an ASCII literal into such a list.
  A \<open>float\<close> is modelled by the exact rational it denotes: rounding to the nearest double
  and the infinities are not modelled.
\<close>

type_synonym pystr = "nat list"

definition s2p :: "string \<Rightarrow> pystr" where
  "s2p s = map of_char s"

datatype exn = TimeoutError | ValueError | RuntimeError string | PlaywrightError | OSError

text \<open>
  The interpreter's Unicode tables and the part of \<open>float()\<close> that is never reached from this
  program are not part of the repository. They are a parameter of the model: the record
  below says how code points from 128 on are classified and what \<open>float()\<close> does on a
  string that has a character other than an ASCII digit or a full stop. On ASCII
  everything is fixed by the definitions that follow.
\<close>

record runtime =
  uni_isspace :: "nat \<Rightarrow> bool"
  uni_isalnum :: "nat \<Rightarrow> bool"
  uni_caseless :: "nat \<Rightarrow> nat \<Rightarrow> bool"
  float_other :: "pystr \<Rightarrow> exn + rat"

definition is_space :: "runtime \<Rightarrow> nat \<Rightarrow> bool" where
  \<comment> \<open>\<open>str.isspace\<close>, also the class \<open>\s\<close> of \<open>re\<close> on \<open>str\<close> patterns\<close>
  "is_space rt c =
     (if c < 128 then (9 \<le> c \<and> c \<le> 13) \<or> (28 \<le> c \<and> c \<le> 32) else uni_isspace rt c)"

definition is_digit :: "nat \<Rightarrow> bool" where
  \<comment> \<open>the class \<open>[0-9]\<close>\<close>
  "is_digit c = (48 \<le> c \<and> c \<le> 57)"

definition is_word :: "runtime \<Rightarrow> nat \<Rightarrow> bool" where
  \<comment> \<open>the class \<open>\w\<close>: alphanumeric or underscore\<close>
  "is_word rt c =
     (if c < 128
      then is_digit c \<or> (65 \<le> c \<and> c \<le> 90) \<or> (97 \<le> c \<and> c \<le> 122) \<or> c = 95
      else uni_isalnum rt c)"

definition ascii_lower :: "nat \<Rightarrow> nat" where
  "ascii_lower c = (if 65 \<le> c \<and> c \<le> 90 then c + 32 else c)"

definition ci_eq :: "runtime \<Rightarrow> nat \<Rightarrow> nat \<Rightarrow> bool" where
  \<comment> \<open>a pattern literal \<open>p\<close> against a character \<open>c\<close> under \<open>(?i)\<close>\<close>
  "ci_eq rt p c =
     (if p < 128 \<and> c < 128 then ascii_lower p = ascii_lower c else uni_caseless rt p c)"

section \<open>String methods\<close>

definition py_strip :: "(nat \<Rightarrow> bool) \<Rightarrow> pystr \<Rightarrow> pystr" where
  \<comment> \<open>\<open>s.strip()\<close> and \<open>s.strip(chars)\<close>: drop the characters of the class at both ends\<close>
  "py_strip P s = rev (dropWhile P (rev (dropWhile P s)))"

function replace_from :: "pystr \<Rightarrow> pystr \<Rightarrow> pystr \<Rightarrow> pystr" where
  "replace_from old new [] = []"
| "replace_from old new (c # cs) =
     (if old \<noteq> [] \<and> prefix old (c # cs)
      then new @ replace_from old new (drop (length old - 1) cs)
      else c # replace_from old new cs)"
  by pat_completeness auto
termination
  by (relation "measure (\<lambda>(old, new, s). length s)") auto

definition py_replace :: "pystr \<Rightarrow> pystr \<Rightarrow> pystr \<Rightarrow> pystr" where
  \<comment> \<open>\<open>s.replace(old, new)\<close>: the occurrences of \<open>old\<close>, leftmost first, not overlapping\<close>
  "py_replace old new s =
     (if old = [] then new @ concat (map (\<lambda>c. c # new) s) else replace_from old new s)"

section \<open>Regular expressions\<close>

text \<open>
  A compiled pattern is modelled by what it does at one position of the subject: given
  the character before the position (\<open>None\<close> at the start of the string) and the rest
  of the string from the position on, it gives the match the backtracking matcher
  prefers there, as the length of the match and the text of group 1, or \<open>None\<close>.
\<close>

type_synonym rmatch = "nat \<times> pystr"
type_synonym pattern = "nat option \<Rightarrow> pystr \<Rightarrow> rmatch option"

fun re_search_from :: "pattern \<Rightarrow> nat option \<Rightarrow> pystr \<Rightarrow> rmatch option" where
  "re_search_from p prev [] = p prev []"
| "re_search_from p prev (c # cs) =
     (case p prev (c # cs) of
        Some m \<Rightarrow> Some m
      | None \<Rightarrow> re_search_from p (Some c) cs)"

definition re_search :: "pattern \<Rightarrow> pystr \<Rightarrow> rmatch option" where
  \<comment> \<open>\<open>pattern.search(s)\<close>: the match at the leftmost position that has one\<close>
  "re_search p s = re_search_from p None s"

function re_sub_from :: "pattern \<Rightarrow> pystr \<Rightarrow> nat option \<Rightarrow> pystr \<Rightarrow> pystr" where
  "re_sub_from p repl prev [] = (case p prev [] of Some m \<Rightarrow> repl | None \<Rightarrow> [])"
| "re_sub_from p repl prev (c # cs) =
     (case p prev (c # cs) of
        None \<Rightarrow> c # re_sub_from p repl (Some c) cs
      | Some (n, g) \<Rightarrow>
          if n = 0 then repl @ c # re_sub_from p repl (Some c) cs
          else repl @ re_sub_from p repl (Some (last (take n (c # cs)))) (drop (n - 1) cs))"
  by pat_completeness auto
termination
  by (relation "measure (\<lambda>(p, repl, prev, s). length s)") auto

definition re_sub :: "pattern \<Rightarrow> pystr \<Rightarrow> pystr \<Rightarrow> pystr" where
  \<comment> \<open>\<open>re.sub(pattern, repl, s)\<close> for a replacement without group references\<close>
  "re_sub p repl s = re_sub_from p repl None s"

definition WS_RE :: "runtime \<Rightarrow> pattern" where
  \<comment> \<open>\<open>\s+\<close>\<close>
  "WS_RE rt prev s =
     (let n = length (takeWhile (is_space rt) s) in if n = 0 then None else Some (n, []))"

fun wordp :: "runtime \<Rightarrow> nat option \<Rightarrow> bool" where
  "wordp rt None = False"
| "wordp rt (Some c) = is_word rt c"

definition boundary :: "runtime \<Rightarrow> nat option \<Rightarrow> pystr \<Rightarrow> bool" where
  \<comment> \<open>\<open>\b\<close>: exactly one of the two neighbours is a word character\<close>
  "boundary rt prev s = (wordp rt prev \<noteq> wordp rt (case s of [] \<Rightarrow> None | c # _ \<Rightarrow> Some c))"

definition word_ci :: "runtime \<Rightarrow> pystr \<Rightarrow> pattern" where
  \<comment> \<open>\<open>(?i)\btoken\b\<close> for a literal, non-empty token\<close>
  "word_ci rt tok prev s =
     (let n = length tok in
      if tok \<noteq> [] \<and> n \<le> length s \<and> list_all2 (ci_eq rt) tok (take n s)
         \<and> boundary rt prev s \<and> boundary rt (Some (last (take n s))) (drop n s)
      then Some (n, []) else None)"

definition BRAND_RE :: "runtime \<Rightarrow> pattern" where
  \<comment> \<open>\<open>(?i)\bspark\b\<close>\<close>
  "BRAND_RE rt = word_ci rt (s2p ''spark'')"

definition is_yen :: "nat \<Rightarrow> bool" where
  \<comment> \<open>U+00A5 and U+FFE5\<close>
  "is_yen c = (c = 165 \<or> c = 65509)"

definition price_number :: "runtime \<Rightarrow> pystr \<Rightarrow> rmatch option" where
  \<comment> \<open>\<open>\s*([0-9]+(?:\.[0-9]+)?)\<close> at the start of \<open>s\<close>, every quantifier greedy\<close>
  "price_number rt s =
     (let ws = takeWhile (is_space rt) s;
          s1 = dropWhile (is_space rt) s;
          ds = takeWhile is_digit s1;
          s2 = dropWhile is_digit s1;
          g = (case s2 of
                 [] \<Rightarrow> ds
               | d # r \<Rightarrow>
                   if d = 46 \<and> takeWhile is_digit r \<noteq> [] then ds @ d # takeWhile is_digit r
                   else ds)
      in if ds = [] then None else Some (length ws + length g, g))"

definition PRICE_RE :: "runtime \<Rightarrow> pattern" where
  \<comment> \<open>\<open>(?:Y|Y')?\s*([0-9]+(?:\.[0-9]+)?)\<close> with the two yen signs for \<open>Y\<close> and \<open>Y'\<close>:
      the optional sign is taken first and given back when the rest fails\<close>
  "PRICE_RE rt prev s =
     (case s of
        [] \<Rightarrow> price_number rt s
      | c # cs \<Rightarrow>
          if is_yen c
          then (case price_number rt cs of
                  Some (n, g) \<Rightarrow> Some (Suc n, g)
                | None \<Rightarrow> price_number rt s)
          else price_number rt s)"

section \<open>The price parser\<close>

definition digits_val :: "pystr \<Rightarrow> nat" where
  "digits_val ds = foldl (\<lambda>a c. 10 * a + (c - 48)) 0 ds"

definition py_float :: "runtime \<Rightarrow> pystr \<Rightarrow> exn + rat" where
  \<comment> \<open>\<open>float(s)\<close>: on digits and full stops the accepted forms are
      \<open>d+\<close>, \<open>d+.d*\<close> and \<open>.d+\<close>; everything else there is a \<open>ValueError\<close>\<close>
  "py_float rt s =
     (if list_all (\<lambda>c. is_digit c \<or> c = 46) s
      then (let ip = takeWhile is_digit s; r = dropWhile is_digit s in
            if r = [] then (if ip = [] then Inl ValueError else Inr (of_nat (digits_val ip)))
            else if list_all is_digit (tl r) \<and> (ip \<noteq> [] \<or> tl r \<noteq> [])
            then Inr (of_nat (digits_val ip) + of_nat (digits_val (tl r)) / 10 ^ length (tl r))
            else Inl ValueError)
      else float_other rt s)"

definition parse_price :: "runtime \<Rightarrow> pystr \<Rightarrow> exn + rat option" where
  "parse_price rt text =
     (case re_search (PRICE_RE rt) (py_replace (s2p '','') [] text) of
        None \<Rightarrow> Inr None
      | Some (n, g) \<Rightarrow>
          (case py_float rt g of
             Inr v \<Rightarrow> Inr (Some v)
           | Inl ValueError \<Rightarrow> Inr None
           | Inl e \<Rightarrow> Inl e))"

section \<open>The name normalizer\<close>

definition normalize_name :: "runtime \<Rightarrow> pystr \<Rightarrow> pystr \<Rightarrow> pystr \<Rightarrow> pystr" where
  "normalize_name rt raw_name prefix_brand scale =
     (let text = py_strip (is_space rt) (re_sub (WS_RE rt) (s2p '' '') raw_name);
          text = re_sub (BRAND_RE rt) [] text;
          text = py_replace (s2p ''1/43'') [] (py_replace (s2p ''1:43'') [] text);
          text = py_strip (\<lambda>c. c \<in> set (s2p '' -_'')) (re_sub (WS_RE rt) (s2p '' '') text)
      in py_strip (is_space rt) (prefix_brand @ s2p '' '' @ scale @ s2p '' '' @ text))"

section \<open>Result records\<close>

record CompareResult =
  source_name :: pystr
  normalized_name :: pystr
  prices :: "rat list"



section \<open>The two sites and the run\<close>

text \<open>
  What a page gives to one search: \<open>Inl e\<close> when the navigation, the search box or the
  count of the result elements raises \<open>e\<close>; otherwise one entry for each result element,
  the text of the element or the exception that reading it raises.
\<close>

type_synonym page_result = "exn + (exn + pystr) list"

text \<open>
  The world outside the script: what the catalog site answers to the search keyword,
  what the resale site answers to the \<open>k\<close>-th lookup of the run (counted from 0) for a
  search name, and the exception that creating the output file raises, if any. The
  command line gives the keyword and the two limits, which \<open>argparse\<close> reads as integers
  of either sign. A run is recorded as the events it goes through and the exception it
  ends with: \<open>Enter\<close> and \<open>Exit\<close> are the two ends of the \<open>with sync_playwright()\<close> block,
  \<open>Launch\<close> is \<open>launch_persistent_context\<close>, \<open>Close\<close> is \<open>context.close()\<close>, \<open>Write\<close> is
  \<open>write_csv\<close> with the rows it is given, \<open>Print\<close> is the last line of \<open>main\<close>. Failures
  before the browsing session exists are not part of the model.
\<close>

record world =
  meruki :: "pystr \<Rightarrow> page_result"
  goofish :: "nat \<Rightarrow> pystr \<Rightarrow> page_result"
  csv_error :: "exn option"

record args =
  query :: pystr
  max_source_items :: int
  max_price_items :: int

datatype event =
    Enter | Launch | Meruki pystr | Goofish pystr | Close
  | Write "CompareResult list" | Exit | Print

record run =
  events :: "event list"
  raised :: "exn option"

fun read_names :: "runtime \<Rightarrow> (exn + pystr) list \<Rightarrow> exn + pystr list" where
  "read_names rt [] = Inr []"
| "read_names rt (Inl e # rows) = Inl e"
| "read_names rt (Inr t # rows) =
     (case read_names rt rows of
        Inl e \<Rightarrow> Inl e
      | Inr names \<Rightarrow>
          (let text = py_strip (is_space rt) t
           in Inr (if text \<noteq> [] then text # names else names)))"

definition fromkeys :: "pystr list \<Rightarrow> pystr list" where
  \<comment> \<open>\<open>list(dict.fromkeys(names))\<close>: a key that is already there keeps its place\<close>
  "fromkeys names = foldl (\<lambda>d k. if k \<in> set d then d else d @ [k]) [] names"

definition get_meruki_result_names :: "runtime \<Rightarrow> world \<Rightarrow> pystr \<Rightarrow> exn + pystr list" where
  "get_meruki_result_names rt w q =
     (case meruki w q of
        Inl e \<Rightarrow> Inl e
      | Inr rows \<Rightarrow>
          (case read_names rt rows of
             Inl e \<Rightarrow> Inl e
           | Inr names \<Rightarrow> Inr (fromkeys names)))"

fun read_prices :: "runtime \<Rightarrow> (exn + pystr) list \<Rightarrow> exn + rat list" where
  "read_prices rt [] = Inr []"
| "read_prices rt (Inl e # rows) = Inl e"
| "read_prices rt (Inr raw # rows) =
     (case parse_price rt raw of
        Inl e \<Rightarrow> Inl e
      | Inr parsed \<Rightarrow>
          (case read_prices rt rows of
             Inl e \<Rightarrow> Inl e
           | Inr ps \<Rightarrow> Inr (case parsed of None \<Rightarrow> ps | Some v \<Rightarrow> v # ps)))"

definition collect_goofish_prices ::
  "runtime \<Rightarrow> world \<Rightarrow> nat \<Rightarrow> pystr \<Rightarrow> int \<Rightarrow> exn + rat list" where
  \<comment> \<open>the \<open>k\<close>-th lookup of the run; \<open>range(min(count, max_items))\<close> is empty below 1\<close>
  "collect_goofish_prices rt w k search_name max_items =
     (case goofish w k search_name of
        Inl e \<Rightarrow> Inl e
      | Inr rows \<Rightarrow> read_prices rt (take (nat (min (int (length rows)) max_items)) rows))"

definition py_upto :: "int \<Rightarrow> 'a list \<Rightarrow> 'a list" where
  \<comment> \<open>the slice \<open>xs[:n]\<close>: a negative \<open>n\<close> counts from the end\<close>
  "py_upto n xs = (if 0 \<le> n then take (nat n) xs else take (length xs - nat (- n)) xs)"

fun run_items ::
  "runtime \<Rightarrow> world \<Rightarrow> args \<Rightarrow> nat \<Rightarrow> pystr list \<Rightarrow> event list \<times> (exn + CompareResult list)" where
  "run_items rt w a k [] = ([], Inr [])"
| "run_items rt w a k (source # rest) =
     (let normalized = normalize_name rt source (s2p ''spark'') (s2p ''1/43'') in
      case (case collect_goofish_prices rt w k normalized (max_price_items a) of
              Inl TimeoutError \<Rightarrow> Inr []
            | r \<Rightarrow> r) of
        Inl e \<Rightarrow> ([Goofish normalized], Inl e)
      | Inr ps \<Rightarrow>
          (case run_items rt w a (Suc k) rest of
             (tr, Inl e) \<Rightarrow> (Goofish normalized # tr, Inl e)
           | (tr, Inr results) \<Rightarrow>
               (Goofish normalized # tr,
                Inr (\<lparr>source_name = source, normalized_name = normalized, prices = ps\<rparr>
                     # results))))"

definition main :: "runtime \<Rightarrow> world \<Rightarrow> args \<Rightarrow> run" where
  "main rt w a =
     (case get_meruki_result_names rt w (query a) of
        Inl e \<Rightarrow>
          if e = TimeoutError
          then \<lparr>events = [Enter, Launch, Meruki (query a), Close, Exit],
                raised = Some (RuntimeError
                  ''Meruki page interaction timeout. Please adjust selectors/wait time.'')\<rparr>
          else \<lparr>events = [Enter, Launch, Meruki (query a), Exit], raised = Some e\<rparr>
      | Inr source_names \<Rightarrow>
          if source_names = []
          then \<lparr>events = [Enter, Launch, Meruki (query a), Close, Exit],
                raised = Some (RuntimeError
                  ''No Meruki result names captured. Please check selectors.'')\<rparr>
          else
            (case run_items rt w a 0 (py_upto (max_source_items a) source_names) of
               (tr, Inl e) \<Rightarrow>
                 \<lparr>events = [Enter, Launch, Meruki (query a)] @ tr @ [Exit], raised = Some e\<rparr>
             | (tr, Inr results) \<Rightarrow>
                 (case csv_error w of
                    Some e \<Rightarrow>
                      \<lparr>events = [Enter, Launch, Meruki (query a)] @ tr @ [Exit],
                       raised = Some e\<rparr>
                  | None \<Rightarrow>
                      \<lparr>events = [Enter, Launch, Meruki (query a)] @ tr
                                 @ [Write results, Close, Exit, Print],
                       raised = None\<rparr>)))"

fun written :: "event list \<Rightarrow> CompareResult list option" where
  \<comment> \<open>the rows of the output file, if the run wrote one\<close>
  "written [] = None"
| "written (Write rows # es) = Some rows"
| "written (e # es) = written es"

fun lookups :: "event list \<Rightarrow> pystr list" where
  \<comment> \<open>the search names sent to the resale site, in order\<close>
  "lookups [] = []"
| "lookups (Goofish q # es) = q # lookups es"
| "lookups (e # es) = lookups es"

section \<open>The specification's wording of deduplication\<close>

function dedup_first :: "'a list \<Rightarrow> 'a list" where
  \<comment> \<open>duplicates collapse to one entry, at the place of the first occurrence\<close>
  "dedup_first [] = []"
| "dedup_first (x # xs) = x # dedup_first (removeAll x xs)"
  by pat_completeness auto
termination
  by (relation "measure length") (auto simp: less_Suc_eq_le length_removeAll_less_eq)

section \<open>The specification's wording of the price parser\<close>

definition decimal_at :: "pystr \<Rightarrow> rat option" where
  \<comment> \<open>the value of the decimal number at the start of \<open>s\<close>: digits, then at most one
      full stop followed by digits\<close>
  "decimal_at s =
     (let whole = takeWhile is_digit s; r = dropWhile is_digit s in
      if whole = [] then None
      else (case r of
              [] \<Rightarrow> Some (of_nat (digits_val whole))
            | d # r' \<Rightarrow>
                (let frac = takeWhile is_digit r' in
                 if d = 46 \<and> frac \<noteq> []
                 then Some (of_nat (digits_val whole) + of_nat (digits_val frac) / 10 ^ length frac)
                 else Some (of_nat (digits_val whole)))))"

definition price_at :: "runtime \<Rightarrow> pystr \<Rightarrow> rat option" where
  \<comment> \<open>an optional currency marker, optional whitespace, a decimal number\<close>
  "price_at rt s =
     decimal_at (dropWhile (is_space rt)
       (case s of [] \<Rightarrow> [] | c # cs \<Rightarrow> if is_yen c then cs else s))"


definition parsed :: "runtime \<Rightarrow> rmatch option \<Rightarrow> exn + rat option" where
  \<comment> \<open>what \<open>parse_price\<close> does with the result of the search\<close>
  "parsed rt m =
     (case m of
        None \<Rightarrow> Inr None
      | Some (n, g) \<Rightarrow>
          (case py_float rt g of
             Inr v \<Rightarrow> Inr (Some v)
           | Inl ValueError \<Rightarrow> Inr None
           | Inl e \<Rightarrow> Inl e))"

section \<open>The specification's wording of the name normalizer\<close>

function squeeze :: "runtime \<Rightarrow> pystr \<Rightarrow> pystr" where
  \<comment> \<open>every run of whitespace becomes one space\<close>
  "squeeze rt [] = []"
| "squeeze rt (c # cs) =
     (if is_space rt c then 32 # squeeze rt (dropWhile (is_space rt) cs)
      else c # squeeze rt cs)"
  by pat_completeness auto
termination
  by (relation "measure (\<lambda>(rt, s). length s)") (auto simp: less_Suc_eq_le length_dropWhile_le)

definition five_steps :: "runtime \<Rightarrow> pystr \<Rightarrow> pystr \<Rightarrow> pystr \<Rightarrow> pystr \<Rightarrow> pystr" where
  \<comment> \<open>the five steps of the specification, for a brand token \<open>token\<close> to take out\<close>
  "five_steps rt token raw_name brand_prefix scale_token =
     (let t1 = py_strip (is_space rt) (squeeze rt raw_name);
          t2 = re_sub (word_ci rt token) [] t1;
          t3 = py_replace (s2p ''1/43'') [] (py_replace (s2p ''1:43'') [] t2);
          t4 = py_strip (\<lambda>c. is_space rt c \<or> c = 45 \<or> c = 95) (squeeze rt t3)
      in py_strip (is_space rt) (brand_prefix @ s2p '' '' @ scale_token @ s2p '' '' @ t4))"

fun single_spaced :: "runtime \<Rightarrow> pystr \<Rightarrow> bool" where
  \<comment> \<open>the only whitespace is the space, and no two spaces are next to each other\<close>
  "single_spaced rt [] = True"
| "single_spaced rt (c # cs) =
     ((if is_space rt c then c = 32 \<and> (case cs of [] \<Rightarrow> True | d # _ \<Rightarrow> \<not> is_space rt d) else True)
      \<and> single_spaced rt cs)"

section \<open>The remaining text of a name\<close>

definition remaining_text :: "runtime \<Rightarrow> pystr \<Rightarrow> pystr" where
  \<comment> \<open>the value of \<open>text\<close> in \<open>normalize_name\<close> before the last line\<close>
  "remaining_text rt raw_name =
     (let text = py_strip (is_space rt) (re_sub (WS_RE rt) (s2p '' '') raw_name);
          text = re_sub (BRAND_RE rt) [] text;
          text = py_replace (s2p ''1/43'') [] (py_replace (s2p ''1:43'') [] text)
      in py_strip (\<lambda>c. c \<in> set (s2p '' -_'')) (re_sub (WS_RE rt) (s2p '' '') text))"

section \<open>Sample runs\<close>

definition ascii_rt :: runtime where
  \<comment> \<open>tables that classify nothing beyond ASCII; used to evaluate at ASCII inputs,
      where the tables are not read\<close>
  "ascii_rt = \<lparr> uni_isspace = (\<lambda>c. False), uni_isalnum = (\<lambda>c. False),
                uni_caseless = (\<lambda>p c. p = c), float_other = (\<lambda>s. Inl ValueError) \<rparr>"

definition demo_world :: world where
  \<comment> \<open>four catalog entries, one of them twice; the first lookup times out\<close>
  "demo_world =
     \<lparr> meruki = (\<lambda>q. Inr [Inr (s2p ''A''), Inr (s2p '' B ''), Inr (s2p ''A''), Inr (s2p ''C'')]),
       goofish = (\<lambda>k q. if k = 0 then Inl TimeoutError
                         else Inr [Inr (165 # s2p ''100 good''), Inr (s2p ''junk''),
                                   Inr (165 # s2p ''200'')]),
       csv_error = None \<rparr>"

definition demo_args :: args where
  "demo_args = \<lparr> query = s2p ''spark 1/43'', max_source_items = 10, max_price_items = 20 \<rparr>"

definition offline_world :: world where
  \<comment> \<open>the catalog answers; every lookup on the resale site fails, not by a timeout\<close>
  "offline_world =
     \<lparr> meruki = (\<lambda>q. Inr [Inr (s2p ''A'')]),
       goofish = (\<lambda>k q. Inl PlaywrightError),
       csv_error = None \<rparr>"

definition blank_world :: world where
  \<comment> \<open>the catalog shows one result element, and its text is blank\<close>
  "blank_world =
     \<lparr> meruki = (\<lambda>q. Inr [Inr (s2p ''  '')]),
       goofish = (\<lambda>k q. Inr []),
       csv_error = None \<rparr>"

definition demo_rows :: "CompareResult list" where
  "demo_rows =
     [\<lparr>source_name = s2p ''A'', normalized_name = s2p ''spark 1/43 A'', prices = []\<rparr>,
      \<lparr>source_name = s2p ''B'', normalized_name = s2p ''spark 1/43 B'', prices = [100, 200]\<rparr>,
      \<lparr>source_name = s2p ''C'', normalized_name = s2p ''spark 1/43 C'', prices = [100, 200]\<rparr>]"

section \<open>Aggregation\<close>





section \<open>Prices and names\<close>



lemma not_digit_46 [simp]: "\<not> is_digit 46"
  by (simp add: is_digit_def)

lemma takeWhile_all: "\<forall>x\<in>set xs. P x \<Longrightarrow> takeWhile P xs = xs"
  by simp

lemma dropWhile_all: "\<forall>x\<in>set xs. P x \<Longrightarrow> dropWhile P xs = []"
  by simp

lemma py_float_whole:
  assumes "ds \<noteq> []" and "\<forall>x\<in>set ds. is_digit x"
  shows "py_float rt ds = Inr (of_nat (digits_val ds))"
proof -
  have "list_all (\<lambda>c. is_digit c \<or> c = 46) ds"
    using assms(2) by (auto simp: list_all_iff)
  then show ?thesis
    unfolding py_float_def Let_def takeWhile_all [OF assms(2)] dropWhile_all [OF assms(2)]
    using assms(1) by simp
qed

lemma py_float_fraction:
  assumes "ds \<noteq> []" and "\<forall>x\<in>set ds. is_digit x" and "\<forall>x\<in>set fs. is_digit x"
  shows "py_float rt (ds @ 46 # fs)
           = Inr (of_nat (digits_val ds) + of_nat (digits_val fs) / 10 ^ length fs)"
proof -
  have tw: "takeWhile is_digit (ds @ 46 # fs) = ds"
    using assms(2) by (simp add: takeWhile_append2)
  have dw: "dropWhile is_digit (ds @ 46 # fs) = 46 # fs"
    using assms(2) by (simp add: dropWhile_append2)
  have "list_all (\<lambda>c. is_digit c \<or> c = 46) (ds @ 46 # fs)"
    using assms(2,3) by (auto simp: list_all_iff)
  then show ?thesis
    unfolding py_float_def Let_def tw dw
    using assms(1,3) by (simp add: list_all_iff)
qed

lemma digits_takeWhile: "\<forall>x\<in>set (takeWhile is_digit s). is_digit x"
  by (auto dest: set_takeWhileD)

lemma price_number_value:
  "(case price_number rt s of
      None \<Rightarrow> decimal_at (dropWhile (is_space rt) s) = None
    | Some (n, g) \<Rightarrow> \<exists>v. py_float rt g = Inr v \<and> decimal_at (dropWhile (is_space rt) s) = Some v)"
proof -
  let ?s1 = "dropWhile (is_space rt) s"
  let ?ds = "takeWhile is_digit ?s1"
  let ?s2 = "dropWhile is_digit ?s1"
  show ?thesis
  proof (cases "?ds = []")
    case True
    then show ?thesis by (simp add: price_number_def decimal_at_def Let_def)
  next
    case ds: False
    show ?thesis
    proof (cases ?s2)
      case Nil
      show ?thesis
        unfolding price_number_def decimal_at_def Let_def Nil
        using ds by (simp add: py_float_whole digits_takeWhile)
    next
      case (Cons d r)
      show ?thesis
      proof (cases "d = 46 \<and> takeWhile is_digit r \<noteq> []")
        case True
        then have d: "d = 46" and r: "takeWhile is_digit r \<noteq> []" by simp_all
        show ?thesis
          unfolding price_number_def decimal_at_def Let_def Cons d
          using ds r by (simp add: py_float_fraction digits_takeWhile)
      next
        case False
        show ?thesis
          unfolding price_number_def decimal_at_def Let_def Cons
          using ds False by (auto simp: py_float_whole digits_takeWhile)
      qed
    qed
  qed
qed

lemma price_number_None: "price_number rt s = None \<longleftrightarrow> takeWhile is_digit (dropWhile (is_space rt) s) = []"
  by (simp add: price_number_def Let_def)

lemma price_number_yen:
  assumes "is_yen c" and "price_number rt cs = None"
  shows "price_number rt (c # cs) = None"
proof (cases "is_space rt c")
  case True
  with assms(2) show ?thesis by (simp add: price_number_None)
next
  case False
  have "\<not> is_digit c" using assms(1) by (auto simp: is_yen_def is_digit_def)
  with False show ?thesis by (simp add: price_number_None)
qed

lemma PRICE_RE_value:
  "(case PRICE_RE rt prev s of
      None \<Rightarrow> price_at rt s = None
    | Some (n, g) \<Rightarrow> \<exists>v. py_float rt g = Inr v \<and> price_at rt s = Some v)"
proof (cases s)
  case Nil
  with price_number_value [of rt "[]"] show ?thesis
    by (auto simp: PRICE_RE_def price_at_def split: option.splits)
next
  case (Cons c cs)
  show ?thesis
  proof (cases "is_yen c")
    case True
    show ?thesis
    proof (cases "price_number rt cs")
      case None
      with price_number_value [of rt cs] price_number_yen [OF True None] Cons True
      show ?thesis
        by (auto simp: PRICE_RE_def price_at_def split: option.splits)
    next
      case (Some m)
      with price_number_value [of rt cs] Cons True show ?thesis
        by (auto simp: PRICE_RE_def price_at_def split: prod.splits)
    qed
  next
    case False
    with price_number_value [of rt s] Cons show ?thesis
      by (auto simp: PRICE_RE_def price_at_def split: option.splits)
  qed
qed






lemmas str_ev = s2p_def normalize_name_def re_sub_def WS_RE_def BRAND_RE_def word_ci_def boundary_def
  is_space_def is_word_def is_digit_def ci_eq_def ascii_lower_def py_strip_def py_replace_def Let_def
  parse_price_def re_search_def PRICE_RE_def price_number_def is_yen_def py_float_def digits_val_def
  decimal_at_def price_at_def remaining_text_def


lemma search_from_match:
  "re_search_from p prev s = Some m \<Longrightarrow> \<exists>prev' s'. p prev' s' = Some m"
proof (induction s arbitrary: prev)
  case Nil
  then show ?case by auto
next
  case (Cons c cs)
  then show ?case by (cases "p prev (c # cs)") auto
qed

lemma PRICE_RE_converts: "PRICE_RE rt prev s = Some (n, g) \<Longrightarrow> \<exists>v. py_float rt g = Inr v"
  using PRICE_RE_value [where rt = rt and prev = prev and s = s] by auto

text \<open>
  C10. Whatever the price pattern captures in group 1 is converted by \<open>float\<close> without an
  error, so \<open>parse_price\<close> returns \<open>None\<close> exactly when the search finds no match.
\<close>

theorem conversion_never_fails:
  "(\<forall>n g. re_search (PRICE_RE rt) s = Some (n, g) \<longrightarrow> (\<exists>v. py_float rt g = Inr v))
   \<and> (parse_price rt text = Inr None
        \<longleftrightarrow> re_search (PRICE_RE rt) (py_replace (s2p '','') [] text) = None)"
proof (rule conjI)
  show "\<forall>n g. re_search (PRICE_RE rt) s = Some (n, g) \<longrightarrow> (\<exists>v. py_float rt g = Inr v)"
    unfolding re_search_def using search_from_match PRICE_RE_converts by blast
next
  let ?m = "re_search (PRICE_RE rt) (py_replace (s2p '','') [] text)"
  show "parse_price rt text = Inr None \<longleftrightarrow> ?m = None"
  proof (cases ?m)
    case None
    then show ?thesis by (simp add: parse_price_def)
  next
    case (Some m)
    obtain n g where m: "m = (n, g)" by (cases m)
    with Some obtain v where "py_float rt g = Inr v"
      unfolding re_search_def using search_from_match PRICE_RE_converts by blast
    with Some m show ?thesis by (simp add: parse_price_def)
  qed
qed

theorem conversion_never_fails_witness:
  "re_search (PRICE_RE ascii_rt) (s2p ''ab 12.5.7'') = Some (5, s2p ''12.5'')
   \<and> (\<exists>v. py_float ascii_rt (s2p ''12.5'') = Inr v)
   \<and> parse_price ascii_rt (s2p ''n/a'') = Inr None"
proof -
  have a: "re_search (PRICE_RE ascii_rt) (s2p ''ab 12.5.7'') = Some (5, s2p ''12.5'')"
    by (simp add: str_ev)
  have b: "re_search (PRICE_RE ascii_rt) (py_replace (s2p '','') [] (s2p ''n/a'')) = None"
    by (simp add: str_ev)
  from conversion_never_fails [of ascii_rt "s2p ''ab 12.5.7''" "s2p ''n/a''"] a b
  show ?thesis by blast
qed

lemma last_dropWhile: "dropWhile P xs \<noteq> [] \<Longrightarrow> last (dropWhile P xs) = last xs"
  by (induction xs) (auto split: if_splits)

lemma strip_ends:
  assumes "py_strip P s \<noteq> []"
  shows "\<not> P (hd (py_strip P s)) \<and> \<not> P (last (py_strip P s))"
proof -
  let ?t = "dropWhile P s"
  let ?u = "dropWhile P (rev ?t)"
  have u: "?u \<noteq> []" using assms by (simp add: py_strip_def)
  have t: "?t \<noteq> []"
  proof
    assume e: "?t = []"
    have "?u = []" unfolding e by simp
    with u show False by simp
  qed
  have "last (py_strip P s) = hd ?u"
    using u by (simp add: py_strip_def last_rev)
  moreover have "\<not> P (hd ?u)"
    using u hd_dropWhile by blast
  moreover have "hd (py_strip P s) = last ?u"
    using u by (simp add: py_strip_def hd_rev)
  moreover have "last ?u = hd ?t"
    using u t by (simp add: last_dropWhile last_rev)
  moreover have "\<not> P (hd ?t)"
    using t hd_dropWhile by blast
  ultimately show ?thesis by simp
qed

lemma normalize_name_remaining:
  "normalize_name rt raw_name prefix_brand scale
     = py_strip (is_space rt)
         (prefix_brand @ s2p '' '' @ scale @ s2p '' '' @ remaining_text rt raw_name)"
  by (simp add: normalize_name_def remaining_text_def Let_def)



section \<open>The five steps and the second pass\<close>

lemma drop_takeWhile_length: "drop (length (takeWhile P xs)) xs = dropWhile P xs"
  by (induction xs) auto

lemma sub_ws_squeeze: "re_sub_from (WS_RE rt) [32] prev s = squeeze rt s"
proof (induction rt s arbitrary: prev rule: squeeze.induct)
  case (1 rt)
  then show ?case by (simp add: WS_RE_def)
next
  case (2 rt c cs)
  show ?case
  proof (cases "is_space rt c")
    case True
    then have "WS_RE rt prev (c # cs) = Some (Suc (length (takeWhile (is_space rt) cs)), [])"
      by (simp add: WS_RE_def)
    with True 2 show ?thesis
      by (simp add: drop_takeWhile_length)
  next
    case False
    then have "WS_RE rt prev (c # cs) = None"
      by (simp add: WS_RE_def)
    with False 2 show ?thesis by simp
  qed
qed

lemma re_sub_squeeze: "re_sub (WS_RE rt) (s2p '' '') s = squeeze rt s"
  by (simp add: re_sub_def s2p_def sub_ws_squeeze)

lemma squeeze_spaces: "c \<in> set (squeeze rt s) \<Longrightarrow> is_space rt c \<Longrightarrow> c = 32"
proof (induction rt s rule: squeeze.induct)
  case (1 rt)
  then show ?case by simp
next
  case (2 rt d ds)
  then show ?case by (auto split: if_splits)
qed

lemma py_strip_cong:
  assumes "\<And>c. c \<in> set s \<Longrightarrow> P c = Q c"
  shows "py_strip P s = py_strip Q s"
proof -
  have a: "dropWhile P s = dropWhile Q s"
    using assms by (intro dropWhile_cong) auto
  have "dropWhile P (rev (dropWhile Q s)) = dropWhile Q (rev (dropWhile Q s))"
    using assms by (intro dropWhile_cong) (auto dest: set_dropWhileD)
  with a show ?thesis by (simp add: py_strip_def)
qed

lemma strip_separators:
  "py_strip (\<lambda>c. c \<in> set (s2p '' -_'')) (squeeze rt s)
     = py_strip (\<lambda>c. is_space rt c \<or> c = 45 \<or> c = 95) (squeeze rt s)"
proof (rule py_strip_cong)
  fix c
  assume "c \<in> set (squeeze rt s)"
  then have "is_space rt c \<Longrightarrow> c = 32"
    by (rule squeeze_spaces)
  moreover have "is_space rt 32" by (simp add: is_space_def)
  ultimately show "(c \<in> set (s2p '' -_'')) = (is_space rt c \<or> c = 45 \<or> c = 95)"
    by (auto simp: s2p_def)
qed

text \<open>
  C1 (amended). For every name and every choice of \<open>brand_prefix\<close> and \<open>scale_token\<close>,
  \<open>normalize_name\<close> follows the five steps of the specification with the word \<open>spark\<close> as
  the brand token that is taken out, whatever \<open>brand_prefix\<close> is: the whitespace is
  collapsed and trimmed, \<open>spark\<close> is removed as a whole word in any case, the markers
  \<open>1:43\<close> and \<open>1/43\<close> are removed, whitespace is collapsed again and whitespace, hyphens
  and underscores are trimmed, and the result is the prefix, the scale and the remaining
  text with single spaces between, trimmed.
\<close>

theorem normalize_name_five_steps:
  "normalize_name rt raw_name brand_prefix scale_token
     = five_steps rt (s2p ''spark'') raw_name brand_prefix scale_token"
  by (simp add: normalize_name_def five_steps_def Let_def re_sub_squeeze strip_separators
      BRAND_RE_def)

lemmas steps_ev = s2p_def re_sub_def word_ci_def boundary_def
  is_space_def is_word_def is_digit_def ci_eq_def ascii_lower_def py_strip_def py_replace_def Let_def
  five_steps_def

lemmas name_ev = steps_ev normalize_name_def WS_RE_def BRAND_RE_def remaining_text_def

theorem normalize_name_five_steps_witness:
  "normalize_name ascii_rt (s2p ''  Ferrari 250 GTO 1:43 spark  '') (s2p ''spark'') (s2p ''1/43'')
     = s2p ''spark 1/43 Ferrari 250 GTO''"
  using normalize_name_five_steps
    [of ascii_rt "s2p ''  Ferrari 250 GTO 1:43 spark  ''" "s2p ''spark''" "s2p ''1/43''"]
  by (simp add: steps_ev)

theorem brand_prefix_counterexample:
  "normalize_name ascii_rt (s2p ''BMW M3 spark'') (s2p ''bmw'') (s2p ''1/43'')
     = s2p ''bmw 1/43 BMW M3''
   \<and> five_steps ascii_rt (s2p ''bmw'') (s2p ''BMW M3 spark'') (s2p ''bmw'') (s2p ''1/43'')
     = s2p ''bmw 1/43 M3 spark''
   \<and> normalize_name ascii_rt (s2p ''BMW M3 spark'') (s2p ''bmw'') (s2p ''1/43'')
     \<noteq> five_steps ascii_rt (s2p ''bmw'') (s2p ''BMW M3 spark'') (s2p ''bmw'') (s2p ''1/43'')"
  by (simp add: name_ev)

lemma single_spaced_squeeze: "single_spaced rt (squeeze rt s)"
proof (induction rt s rule: squeeze.induct)
  case (1 rt)
  then show ?case by simp
next
  case (2 rt c cs)
  show ?case
  proof (cases "is_space rt c")
    case True
    let ?r = "dropWhile (is_space rt) cs"
    have "case squeeze rt ?r of [] \<Rightarrow> True | d # _ \<Rightarrow> \<not> is_space rt d"
    proof (cases ?r)
      case Nil
      show ?thesis unfolding Nil by simp
    next
      case (Cons x xs)
      have "?r \<noteq> []" unfolding Cons by simp
      then have "\<not> is_space rt (hd ?r)"
        by (rule hd_dropWhile)
      then have "\<not> is_space rt x"
        unfolding Cons by simp
      then show ?thesis unfolding Cons by simp
    qed
    with True 2 show ?thesis by simp
  next
    case False
    with 2 show ?thesis by simp
  qed
qed

lemma squeeze_fixed: "single_spaced rt s \<Longrightarrow> squeeze rt s = s"
proof (induction rt s rule: squeeze.induct)
  case (1 rt)
  then show ?case by simp
next
  case (2 rt c cs)
  show ?case
  proof (cases "is_space rt c")
    case True
    with "2.prems" have c: "c = 32" and cs: "dropWhile (is_space rt) cs = cs"
      and ss: "single_spaced rt cs"
      by (auto split: list.splits)
    with True "2.IH"(1) show ?thesis by simp
  next
    case False
    with 2 show ?thesis by simp
  qed
qed

lemma single_spaced_append:
  "single_spaced rt (xs @ ys) \<Longrightarrow> single_spaced rt xs \<and> single_spaced rt ys"
proof (induction xs)
  case Nil
  then show ?case by simp
next
  case (Cons x xs)
  then show ?case by (cases xs) (auto split: if_splits)
qed

lemma single_spaced_strip:
  assumes "single_spaced rt s"
  shows "single_spaced rt (py_strip P s)"
proof -
  have "single_spaced rt (takeWhile P s @ dropWhile P s)"
    using assms by simp
  then have d: "single_spaced rt (dropWhile P s)"
    using single_spaced_append by blast
  let ?t = "dropWhile P s"
  have "?t = rev (dropWhile P (rev ?t)) @ rev (takeWhile P (rev ?t))"
    by (metis rev_append rev_rev_ident takeWhile_dropWhile_id)
  with d have "single_spaced rt (rev (dropWhile P (rev ?t)) @ rev (takeWhile P (rev ?t)))"
    by simp
  then show ?thesis
    unfolding py_strip_def using single_spaced_append by blast
qed

lemma single_spaced_space: "single_spaced rt s \<Longrightarrow> c \<in> set s \<Longrightarrow> is_space rt c \<Longrightarrow> c = 32"
  by (induction s) (auto split: if_splits)

lemma py_strip_fixed:
  assumes "s \<noteq> []" and "\<not> P (hd s)" and "\<not> P (last s)"
  shows "py_strip P s = s"
proof -
  have a: "dropWhile P s = s"
    using assms(1,2) by (cases s) auto
  have "rev s \<noteq> []" "\<not> P (hd (rev s))"
    using assms(1,3) by (simp_all add: hd_rev)
  then have "dropWhile P (rev s) = rev s"
    by (cases "rev s") auto
  with a show ?thesis by (simp add: py_strip_def)
qed

lemma sub_without_match:
  "re_search_from p prev s = None \<Longrightarrow> re_sub_from p repl prev s = s"
proof (induction s arbitrary: prev)
  case Nil
  then show ?case by simp
next
  case (Cons c cs)
  then show ?case by (cases "p prev (c # cs)") auto
qed

lemma brand_after_space: "BRAND_RE rt (Some 32) s = BRAND_RE rt None s"
  by (simp add: BRAND_RE_def word_ci_def boundary_def is_word_def is_digit_def)

lemma search_after_space:
  "re_search_from (BRAND_RE rt) (Some 32) s = re_search_from (BRAND_RE rt) None s"
  by (cases s) (simp_all add: brand_after_space)

lemma replace_without_occurrence: "\<not> sublist old s \<Longrightarrow> replace_from old new s = s"
proof (induction old new s rule: replace_from.induct)
  case (1 old new)
  then show ?case by simp
next
  case (2 old new c cs)
  from "2.prems" have "\<not> prefix old (c # cs)" and "\<not> sublist old cs"
    by (auto simp: sublist_Cons_right)
  with 2 show ?case by simp
qed

lemma remaining_text_shape:
  "single_spaced rt (remaining_text rt raw)
   \<and> (remaining_text rt raw = []
      \<or> (hd (remaining_text rt raw) \<notin> set (s2p '' -_'')
         \<and> last (remaining_text rt raw) \<notin> set (s2p '' -_'')))"
proof -
  obtain x where t: "remaining_text rt raw = py_strip (\<lambda>c. c \<in> set (s2p '' -_'')) (squeeze rt x)"
    by (simp add: remaining_text_def Let_def re_sub_squeeze)
  have "single_spaced rt (remaining_text rt raw)"
    unfolding t by (rule single_spaced_strip) (rule single_spaced_squeeze)
  moreover have "remaining_text rt raw = []
      \<or> (hd (remaining_text rt raw) \<notin> set (s2p '' -_'')
         \<and> last (remaining_text rt raw) \<notin> set (s2p '' -_''))"
    unfolding t using strip_ends [of "\<lambda>c. c \<in> set (s2p '' -_'')" "squeeze rt x"] by blast
  ultimately show ?thesis by simp
qed

lemma brand_at_start:
  "BRAND_RE rt None (115 # 112 # 97 # 114 # 107 # 32 # s) = Some (5, [])"
  by (simp add: BRAND_RE_def word_ci_def Let_def s2p_def boundary_def ci_eq_def ascii_lower_def
      is_word_def is_digit_def)

lemma brand_needs_s: "\<not> ci_eq rt 115 c \<Longrightarrow> BRAND_RE rt prev (c # s) = None"
  by (simp add: BRAND_RE_def word_ci_def Let_def s2p_def)

lemma not_s: "\<not> ci_eq rt 115 32" "\<not> ci_eq rt 115 49" "\<not> ci_eq rt 115 47"
  "\<not> ci_eq rt 115 52" "\<not> ci_eq rt 115 51"
  by (simp_all add: ci_eq_def ascii_lower_def)

lemma second_pass:
  assumes ne: "t \<noteq> []" and ss: "single_spaced rt t"
    and h: "hd t \<notin> set (s2p '' -_'')" and l: "last t \<notin> set (s2p '' -_'')"
    and brand: "re_search (BRAND_RE rt) t = None"
    and colon: "\<not> sublist (s2p ''1:43'') t" and slash: "\<not> sublist (s2p ''1/43'') t"
  shows "remaining_text rt (s2p ''spark 1/43 '' @ t) = t"
proof -
  have sp32: "is_space rt 32" by (simp add: is_space_def)
  have hs: "\<not> is_space rt (hd t)"
    using single_spaced_space [OF ss, of "hd t"] ne h by (auto simp: s2p_def)
  have ls: "\<not> is_space rt (last t)"
    using single_spaced_space [OF ss, of "last t"] ne l by (auto simp: s2p_def)
  obtain c cs where tc: "t = c # cs" using ne by (cases t) auto
  have dw: "dropWhile (is_space rt) t = t"
    using hs tc by simp
  have sq: "squeeze rt t = t"
    using ss by (rule squeeze_fixed)
  have s1: "squeeze rt (s2p ''spark 1/43 '' @ t) = s2p ''spark 1/43 '' @ t"
    by (simp add: s2p_def is_space_def dw sq)
  have s2: "py_strip (is_space rt) (s2p ''spark 1/43 '' @ t) = s2p ''spark 1/43 '' @ t"
    using ne ls by (intro py_strip_fixed) (simp_all add: s2p_def is_space_def)
  have b: "re_sub_from (BRAND_RE rt) [] (Some 32) t = t"
    using brand by (intro sub_without_match) (simp add: search_after_space re_search_def)
  have s3: "re_sub (BRAND_RE rt) [] (s2p ''spark 1/43 '' @ t) = s2p '' 1/43 '' @ t"
    by (simp add: re_sub_def s2p_def brand_at_start brand_needs_s not_s b)
  have s4: "py_replace (s2p ''1:43'') [] (s2p '' 1/43 '' @ t) = s2p '' 1/43 '' @ t"
    using replace_without_occurrence [OF colon, of "[]"]
    by (simp add: py_replace_def s2p_def)
  have s5: "py_replace (s2p ''1/43'') [] (s2p '' 1/43 '' @ t) = s2p ''  '' @ t"
    using replace_without_occurrence [OF slash, of "[]"]
    by (simp add: py_replace_def s2p_def)
  have s6: "squeeze rt (s2p ''  '' @ t) = 32 # t"
    by (simp add: s2p_def is_space_def dw sq)
  have d7: "dropWhile (\<lambda>c. c \<in> set (s2p '' -_'')) (32 # t) = t"
    using h tc by (simp add: s2p_def)
  have "py_strip (\<lambda>c. c \<in> set (s2p '' -_'')) t = t"
    using ne h l by (rule py_strip_fixed)
  then have s7: "py_strip (\<lambda>c. c \<in> set (s2p '' -_'')) (32 # t) = t"
    unfolding py_strip_def d7 using h tc by simp
  show ?thesis
    by (simp add: remaining_text_def Let_def re_sub_squeeze s1 s2 s3 s4 s5 s6 s7)
qed


lemma bare_key_fixed:
  "normalize_name rt (s2p ''spark 1/43'') (s2p ''spark'') (s2p ''1/43'') = s2p ''spark 1/43''"
  by (simp add: name_ev)

text \<open>
  C7 (amended). With the default prefix and scale, normalizing the result of
  \<open>normalize_name\<close> again changes nothing whenever the text that remains of the name after
  the first pass holds no whole word \<open>spark\<close> and neither scale marker.
\<close>

theorem normalize_twice:
  assumes "re_search (BRAND_RE rt) (remaining_text rt raw_name) = None"
    and "\<not> sublist (s2p ''1:43'') (remaining_text rt raw_name)"
    and "\<not> sublist (s2p ''1/43'') (remaining_text rt raw_name)"
  shows "normalize_name rt (normalize_name rt raw_name (s2p ''spark'') (s2p ''1/43''))
           (s2p ''spark'') (s2p ''1/43'')
         = normalize_name rt raw_name (s2p ''spark'') (s2p ''1/43'')"
proof (cases "remaining_text rt raw_name = []")
  case True
  then have "normalize_name rt raw_name (s2p ''spark'') (s2p ''1/43'') = s2p ''spark 1/43''"
    by (simp add: normalize_name_remaining) (simp add: s2p_def py_strip_def is_space_def)
  then show ?thesis by (simp add: bare_key_fixed)
next
  case False
  let ?t = "remaining_text rt raw_name"
  from remaining_text_shape [of rt raw_name] False
  have ss: "single_spaced rt ?t" and h: "hd ?t \<notin> set (s2p '' -_'')"
    and l: "last ?t \<notin> set (s2p '' -_'')"
    by auto
  have ls: "\<not> is_space rt (last ?t)"
    using single_spaced_space [OF ss, of "last ?t"] False l by (auto simp: s2p_def)
  have fixed: "py_strip (is_space rt) (s2p ''spark 1/43 '' @ ?t) = s2p ''spark 1/43 '' @ ?t"
    using False ls by (intro py_strip_fixed) (simp_all add: s2p_def is_space_def)
  have key: "s2p ''spark'' @ s2p '' '' @ s2p ''1/43'' @ s2p '' '' @ ?t = s2p ''spark 1/43 '' @ ?t"
    by (simp add: s2p_def)
  have once: "normalize_name rt raw_name (s2p ''spark'') (s2p ''1/43'') = s2p ''spark 1/43 '' @ ?t"
    unfolding normalize_name_remaining key by (rule fixed)
  have again: "remaining_text rt (s2p ''spark 1/43 '' @ ?t) = ?t"
    using False ss h l assms by (rule second_pass)
  have "normalize_name rt (s2p ''spark 1/43 '' @ ?t) (s2p ''spark'') (s2p ''1/43'')
               = s2p ''spark 1/43 '' @ ?t"
    unfolding normalize_name_remaining [of rt "s2p ''spark 1/43 '' @ ?t"] again key
    by (rule fixed)
  with once show ?thesis by simp
qed

theorem normalize_twice_witness:
  "normalize_name ascii_rt
     (normalize_name ascii_rt (s2p ''Spark 1/43 Ferrari 250 GTO'') (s2p ''spark'') (s2p ''1/43''))
     (s2p ''spark'') (s2p ''1/43'')
   = normalize_name ascii_rt (s2p ''Spark 1/43 Ferrari 250 GTO'') (s2p ''spark'') (s2p ''1/43'')"
proof -
  have r: "remaining_text ascii_rt (s2p ''Spark 1/43 Ferrari 250 GTO'') = s2p ''Ferrari 250 GTO''"
    by (simp add: name_ev)
  have a: "re_search (BRAND_RE ascii_rt) (s2p ''Ferrari 250 GTO'') = None"
    by (simp add: name_ev re_search_def)
  have b: "\<not> sublist (s2p ''1:43'') (s2p ''Ferrari 250 GTO'')"
    "\<not> sublist (s2p ''1/43'') (s2p ''Ferrari 250 GTO'')"
    by (simp_all add: s2p_def sublist_Cons_right)
  show ?thesis
    using a b by (intro normalize_twice) (simp_all add: r)
qed

theorem normalize_twice_counterexample:
  "normalize_name ascii_rt (s2p ''sp1/43ark'') (s2p ''spark'') (s2p ''1/43'')
     = s2p ''spark 1/43 spark''
   \<and> normalize_name ascii_rt
       (normalize_name ascii_rt (s2p ''sp1/43ark'') (s2p ''spark'') (s2p ''1/43''))
       (s2p ''spark'') (s2p ''1/43'')
     = s2p ''spark 1/43''
   \<and> normalize_name ascii_rt
       (normalize_name ascii_rt (s2p ''sp1/43ark'') (s2p ''spark'') (s2p ''1/43''))
       (s2p ''spark'') (s2p ''1/43'')
     \<noteq> normalize_name ascii_rt (s2p ''sp1/43ark'') (s2p ''spark'') (s2p ''1/43'')"
  by (simp add: name_ev)

section \<open>The run: discovery, lookups, output\<close>

lemma foldl_fromkeys:
  "foldl (\<lambda>d k. if k \<in> set d then d else d @ [k]) acc xs
     = acc @ dedup_first (filter (\<lambda>x. x \<notin> set acc) xs)"
proof (induction xs arbitrary: acc)
  case Nil
  then show ?case by simp
next
  case (Cons x xs)
  show ?case
  proof (cases "x \<in> set acc")
    case True
    with Cons show ?thesis by simp
  next
    case False
    have "filter (\<lambda>y. y \<notin> set (acc @ [x])) xs
            = removeAll x (filter (\<lambda>y. y \<notin> set acc) xs)"
      by (induction xs) auto
    with False Cons show ?thesis by simp
  qed
qed

lemma fromkeys_dedup_first: "fromkeys names = dedup_first names"
  by (simp add: fromkeys_def foldl_fromkeys)

lemma run_items_sources:
  "run_items rt w a k names = (tr, Inr rs) \<Longrightarrow> map source_name rs = names"
proof (induction names arbitrary: k tr rs)
  case Nil
  then show ?case by simp
next
  case (Cons n ns)
  then show ?case
    by (auto simp: Let_def split: sum.splits prod.splits exn.splits)
qed

lemma run_items_lookups:
  "run_items rt w a k names = (tr, Inr rs) \<Longrightarrow>
     lookups tr = map (\<lambda>s. normalize_name rt s (s2p ''spark'') (s2p ''1/43'')) names"
proof (induction names arbitrary: k tr rs)
  case Nil
  then show ?case by simp
next
  case (Cons n ns)
  then show ?case
    by (auto simp: Let_def split: sum.splits prod.splits exn.splits)
qed

lemma run_items_only_lookups:
  "run_items rt w a k names = (tr, r) \<Longrightarrow> e \<in> set tr \<Longrightarrow> \<exists>q. e = Goofish q"
proof (induction names arbitrary: k tr r)
  case Nil
  then show ?case by simp
next
  case (Cons n ns)
  then show ?case
    by (auto simp: Let_def split: sum.splits prod.splits exn.splits)
qed

lemma written_skip: "\<forall>e\<in>set tr. \<exists>q. e = Goofish q \<Longrightarrow> written (tr @ es) = written es"
  by (induction tr) auto


lemmas run_ev = s2p_def normalize_name_def re_sub_def WS_RE_def BRAND_RE_def word_ci_def boundary_def
  is_space_def is_word_def is_digit_def ci_eq_def ascii_lower_def py_strip_def py_replace_def Let_def
  parse_price_def re_search_def PRICE_RE_def price_number_def is_yen_def py_float_def digits_val_def
  main_def get_meruki_result_names_def fromkeys_def collect_goofish_prices_def py_upto_def
  demo_world_def demo_args_def offline_world_def blank_world_def demo_rows_def

text \<open>
  C3 (amended). For every sequence of discovered catalog names and every \<open>max_items\<close> that
  is not negative, a run that completes produces one result for each name of the
  sequence deduplicated by equality, first occurrences kept in their order, and cut to
  its first \<open>max_items\<close> entries, in that order. A negative \<open>max_items\<close> is a slice from the
  end in the source and is left out.
\<close>

theorem results_follow_names:
  assumes "0 \<le> max_source_items a"
    and "meruki w (query a) = Inr rows"
    and "read_names rt rows = Inr names"
    and "raised (main rt w a) = None"
  shows "\<exists>rs. written (events (main rt w a)) = Some rs
              \<and> map source_name rs = take (nat (max_source_items a)) (dedup_first names)"
proof -
  let ?batch = "py_upto (max_source_items a) (dedup_first names)"
  have g: "get_meruki_result_names rt w (query a) = Inr (dedup_first names)"
    using assms(2,3) by (simp add: get_meruki_result_names_def fromkeys_dedup_first)
  obtain tr r where ri: "run_items rt w a 0 ?batch = (tr, r)"
    by (cases "run_items rt w a 0 ?batch") auto
  from assms(4) g ri obtain rs where r: "r = Inr rs" and ne: "dedup_first names \<noteq> []"
    and ev: "events (main rt w a)
               = [Enter, Launch, Meruki (query a)] @ tr @ [Write rs, Close, Exit, Print]"
    by (auto simp: main_def split: if_splits sum.splits option.splits)
  have "written (events (main rt w a)) = Some rs"
    using run_items_only_lookups [OF ri] by (simp add: ev written_skip)
  moreover have "map source_name rs = ?batch"
    using run_items_sources ri r by blast
  ultimately show ?thesis
    using assms(1) by (simp add: py_upto_def)
qed

theorem results_follow_names_witness:
  "\<exists>rs. written (events (main ascii_rt demo_world demo_args)) = Some rs
        \<and> map source_name rs = [s2p ''A'', s2p ''B'', s2p ''C'']"
proof -
  have "raised (main ascii_rt demo_world demo_args) = None"
    by (simp add: run_ev)
  from results_follow_names [of demo_args demo_world
      "[Inr (s2p ''A''), Inr (s2p '' B ''), Inr (s2p ''A''), Inr (s2p ''C'')]"
      ascii_rt "[s2p ''A'', s2p ''B'', s2p ''A'', s2p ''C'']", OF _ _ _ this]
  show ?thesis
    by (simp add: run_ev)
qed

theorem negative_limit_counterexample:
  "map_option (map source_name)
     (written (events (main ascii_rt demo_world (demo_args\<lparr>max_source_items := - 1\<rparr>))))
     = Some [s2p ''A'', s2p ''B'']
   \<and> take (nat (max_source_items (demo_args\<lparr>max_source_items := - 1\<rparr>)))
        (dedup_first [s2p ''A'', s2p ''B'', s2p ''A'', s2p ''C'']) = []
   \<and> \<not> int (length [s2p ''A'', s2p ''B''])
         \<le> max_source_items (demo_args\<lparr>max_source_items := - 1\<rparr>)"
  by (simp add: run_ev)


lemma one_write_split:
  assumes "\<forall>e\<in>set xs. \<exists>q. e = Goofish q \<or> e = Enter \<or> e = Launch \<or> e = Meruki q"
    and "xs @ Write r # ys = pre @ Write rows # post"
    and "\<forall>rows'. Write rows' \<notin> set ys"
  shows "pre = xs \<and> rows = r \<and> post = ys"
  using assms
proof (induction xs arbitrary: pre)
  case Nil
  then show ?case by (cases pre) auto
next
  case (Cons x xs)
  then show ?case by (cases pre) auto
qed

lemma main_write_shape:
  assumes "Write rows \<in> set (events (main rt w a))"
    and "get_meruki_result_names rt w (query a) = Inr source_names"
    and "run_items rt w a 0 (py_upto (max_source_items a) source_names) = (tr, r)"
  shows "\<exists>rs. r = Inr rs \<and> events (main rt w a)
               = ([Enter, Launch, Meruki (query a)] @ tr) @ Write rs # [Close, Exit, Print]"
proof -
  have notr: "Write rows \<notin> set tr"
    using run_items_only_lookups [OF assms(3)] by auto
  show ?thesis
  proof (cases "source_names = []")
    case True
    with assms(1,2) show ?thesis by (simp add: main_def)
  next
    case False
    show ?thesis
    proof (cases r)
      case (Inl e)
      with assms False notr show ?thesis by (simp add: main_def)
    next
      case (Inr rs)
      show ?thesis
      proof (cases "csv_error w")
        case None
        with assms False Inr show ?thesis by (simp add: main_def)
      next
        case (Some e)
        with assms False Inr notr show ?thesis by (simp add: main_def)
      qed
    qed
  qed
qed

text \<open>
  C4. When the discovery yields no names the run raises the error that asks to check the
  selectors, and no output is written. Whenever output is written, every retained name
  has been looked up before and has its row, and nothing is looked up afterwards.
\<close>

theorem empty_discovery_is_fatal:
  "(get_meruki_result_names rt w (query a) = Inr [] \<longrightarrow>
      raised (main rt w a)
        = Some (RuntimeError ''No Meruki result names captured. Please check selectors.'')
      \<and> written (events (main rt w a)) = None)
   \<and> (\<forall>source_names pre rows post.
        get_meruki_result_names rt w (query a) = Inr source_names
        \<and> events (main rt w a) = pre @ Write rows # post \<longrightarrow>
          lookups pre = map (\<lambda>s. normalize_name rt s (s2p ''spark'') (s2p ''1/43''))
                          (py_upto (max_source_items a) source_names)
          \<and> map source_name rows = py_upto (max_source_items a) source_names
          \<and> lookups post = [])"
proof (rule conjI)
  show "get_meruki_result_names rt w (query a) = Inr [] \<longrightarrow>
      raised (main rt w a)
        = Some (RuntimeError ''No Meruki result names captured. Please check selectors.'')
      \<and> written (events (main rt w a)) = None"
    by (simp add: main_def)
next
  show "\<forall>source_names pre rows post.
        get_meruki_result_names rt w (query a) = Inr source_names
        \<and> events (main rt w a) = pre @ Write rows # post \<longrightarrow>
          lookups pre = map (\<lambda>s. normalize_name rt s (s2p ''spark'') (s2p ''1/43''))
                          (py_upto (max_source_items a) source_names)
          \<and> map source_name rows = py_upto (max_source_items a) source_names
          \<and> lookups post = []"
  proof (intro allI impI)
  fix source_names pre rows post
  assume h: "get_meruki_result_names rt w (query a) = Inr source_names
        \<and> events (main rt w a) = pre @ Write rows # post"
  let ?batch = "py_upto (max_source_items a) source_names"
  obtain tr r where ri: "run_items rt w a 0 ?batch = (tr, r)"
    by (cases "run_items rt w a 0 ?batch") auto
  have only: "\<forall>e\<in>set tr. \<exists>q. e = Goofish q"
    using run_items_only_lookups [OF ri] by blast
  have inset: "Write rows \<in> set (events (main rt w a))"
    using h by simp
  from main_write_shape [OF inset _ ri] h obtain rs where r: "r = Inr rs"
    and ev: "events (main rt w a)
               = ([Enter, Launch, Meruki (query a)] @ tr) @ Write rs # [Close, Exit, Print]"
    by blast
  have "\<forall>e\<in>set ([Enter, Launch, Meruki (query a)] @ tr).
          \<exists>q. e = Goofish q \<or> e = Enter \<or> e = Launch \<or> e = Meruki q"
    using only by auto
  from one_write_split [OF this, of rs "[Close, Exit, Print]" pre rows post] ev h
  have pre: "pre = [Enter, Launch, Meruki (query a)] @ tr" and rows: "rows = rs"
    and post: "post = [Close, Exit, Print]"
    by auto
  show "lookups pre = map (\<lambda>s. normalize_name rt s (s2p ''spark'') (s2p ''1/43'')) ?batch
          \<and> map source_name rows = ?batch \<and> lookups post = []"
    using run_items_lookups [of rt w a 0 ?batch tr rs] run_items_sources [of rt w a 0 ?batch tr rs]
      ri r pre rows post by simp
  qed
qed


theorem empty_discovery_is_fatal_witness:
  "raised (main ascii_rt blank_world demo_args)
     = Some (RuntimeError ''No Meruki result names captured. Please check selectors.'')
   \<and> written (events (main ascii_rt blank_world demo_args)) = None
   \<and> lookups [Enter, Launch, Meruki (s2p ''spark 1/43''), Goofish (s2p ''spark 1/43 A''),
               Goofish (s2p ''spark 1/43 B''), Goofish (s2p ''spark 1/43 C'')]
       = [s2p ''spark 1/43 A'', s2p ''spark 1/43 B'', s2p ''spark 1/43 C'']
   \<and> map source_name demo_rows = [s2p ''A'', s2p ''B'', s2p ''C'']"
proof -
  have e: "get_meruki_result_names ascii_rt blank_world (query demo_args) = Inr []"
    by (simp add: run_ev)
  have d: "get_meruki_result_names ascii_rt demo_world (query demo_args)
             = Inr [s2p ''A'', s2p ''B'', s2p ''C'']
           \<and> events (main ascii_rt demo_world demo_args)
             = [Enter, Launch, Meruki (s2p ''spark 1/43''), Goofish (s2p ''spark 1/43 A''),
                Goofish (s2p ''spark 1/43 B''), Goofish (s2p ''spark 1/43 C'')]
               @ Write demo_rows # [Close, Exit, Print]"
    by (simp add: run_ev)
  have n: "map (\<lambda>s. normalize_name ascii_rt s (s2p ''spark'') (s2p ''1/43''))
             [s2p ''A'', s2p ''B'', s2p ''C'']
           = [s2p ''spark 1/43 A'', s2p ''spark 1/43 B'', s2p ''spark 1/43 C'']"
    by (simp add: run_ev)
  have m: "max_source_items demo_args = 10"
    by (simp add: demo_args_def)
  from empty_discovery_is_fatal [of ascii_rt blank_world demo_args] e
  have one: "raised (main ascii_rt blank_world demo_args)
     = Some (RuntimeError ''No Meruki result names captured. Please check selectors.'')
   \<and> written (events (main ascii_rt blank_world demo_args)) = None"
    by blast
  from empty_discovery_is_fatal [of ascii_rt demo_world demo_args] d
  have "lookups [Enter, Launch, Meruki (s2p ''spark 1/43''), Goofish (s2p ''spark 1/43 A''),
               Goofish (s2p ''spark 1/43 B''), Goofish (s2p ''spark 1/43 C'')]
       = map (\<lambda>s. normalize_name ascii_rt s (s2p ''spark'') (s2p ''1/43''))
          (py_upto (max_source_items demo_args) [s2p ''A'', s2p ''B'', s2p ''C''])
     \<and> map source_name demo_rows
       = py_upto (max_source_items demo_args) [s2p ''A'', s2p ''B'', s2p ''C'']"
    by blast
  with one n m show ?thesis
    by (simp add: py_upto_def)
qed





end
